theory Spec2Isabelle
  imports Complex_Main
begin

section \<open>JavaScript values as the handlers of server.js see them\<close>

subsection \<open>Numbers\<close>

text \<open>
  A JavaScript number is a finite value, one of the two infinities, or NaN. Finite values
  are modelled as exact rationals: the rounding of binary64 arithmetic is not modelled, and
  \<open>-0\<close> is identified with \<open>0\<close> (the handlers only add, compare and test
  truthiness, none of which tells them apart).
\<close>

datatype jsnum = NaN | NegInf | Fin rat | PosInf

text \<open>The numeric \<open>+\<close> of JavaScript.\<close>

fun num_add :: "jsnum \<Rightarrow> jsnum \<Rightarrow> jsnum" where
  "num_add NaN _ = NaN"
| "num_add _ NaN = NaN"
| "num_add PosInf NegInf = NaN"
| "num_add NegInf PosInf = NaN"
| "num_add PosInf _ = PosInf"
| "num_add _ PosInf = PosInf"
| "num_add NegInf _ = NegInf"
| "num_add _ NegInf = NegInf"
| "num_add (Fin a) (Fin b) = Fin (a + b)"

text \<open>\<open>a < b\<close> on numbers: false as soon as one side is NaN.\<close>

fun num_lt :: "jsnum \<Rightarrow> jsnum \<Rightarrow> bool" where
  "num_lt NaN _ = False"
| "num_lt _ NaN = False"
| "num_lt (Fin a) (Fin b) = (a < b)"
| "num_lt NegInf NegInf = False"
| "num_lt NegInf _ = True"
| "num_lt PosInf _ = False"
| "num_lt (Fin _) NegInf = False"
| "num_lt (Fin _) PosInf = True"

text \<open>\<open>a > b\<close> is \<open>b < a\<close>; \<open>a <= b\<close> is false on NaN and \<open>\<not> b < a\<close> otherwise.\<close>

definition num_gt :: "jsnum \<Rightarrow> jsnum \<Rightarrow> bool" where
  "num_gt a b = num_lt b a"

definition num_le :: "jsnum \<Rightarrow> jsnum \<Rightarrow> bool" where
  "num_le a b = (a \<noteq> NaN \<and> b \<noteq> NaN \<and> \<not> num_lt b a)"

text \<open>\<open>a === b\<close> on numbers: NaN is not equal to itself.\<close>

definition num_eq :: "jsnum \<Rightarrow> jsnum \<Rightarrow> bool" where
  "num_eq a b = (a \<noteq> NaN \<and> a = b)"

text \<open>\<open>Math.max(a, b)\<close>, and \<open>Math.max(...xs)\<close>, which starts from \<open>-Infinity\<close>.\<close>

definition num_max :: "jsnum \<Rightarrow> jsnum \<Rightarrow> jsnum" where
  "num_max a b = (if a = NaN \<or> b = NaN then NaN else if num_lt a b then b else a)"

definition math_max :: "jsnum list \<Rightarrow> jsnum" where
  "math_max xs = foldl num_max NegInf xs"

subsection \<open>Values of a parsed JSON body\<close>

text \<open>
  \<open>JUndefined\<close> is what reading an absent property gives. An object is its list of
  members in source order. Objects stand for plain JSON objects without a member named
  \<open>toString\<close>: on those \<open>Number\<close> throws a TypeError, which is outside this model.
\<close>

datatype jsval =
    JUndefined
  | JNull
  | JBool bool
  | JNum jsnum
  | JStr string
  | JArr "jsval list"
  | JObj "(string \<times> jsval) list"

text \<open>\<open>body[k]\<close>: the last member named \<open>k\<close> wins, as in \<open>JSON.parse\<close>; arrays and
  an absent body have none of the names the handlers read.\<close>

fun get_field :: "jsval \<Rightarrow> string \<Rightarrow> jsval" where
  "get_field (JObj kvs) k = (case map_of (rev kvs) k of Some v \<Rightarrow> v | None \<Rightarrow> JUndefined)"
| "get_field _ k = JUndefined"

text \<open>Truthiness, for \<open>!x\<close> and \<open>x || y\<close>.\<close>

fun truthy :: "jsval \<Rightarrow> bool" where
  "truthy JUndefined = False"
| "truthy JNull = False"
| "truthy (JBool b) = b"
| "truthy (JNum n) = (n \<noteq> NaN \<and> n \<noteq> Fin 0)"
| "truthy (JStr s) = (s \<noteq> [])"
| "truthy (JArr _) = True"
| "truthy (JObj _) = True"

definition js_or :: "jsval \<Rightarrow> jsval \<Rightarrow> jsval" where
  "js_or a b = (if truthy a then a else b)"

subsection \<open>String to number\<close>

text \<open>
  \<open>Number(s)\<close> on a string follows the StringNumericLiteral grammar: surrounding white
  space is dropped; the empty string is 0; a \<open>0x\<close>, \<open>0o\<close> or \<open>0b\<close> literal has no
  sign; a decimal literal has an optional sign, digits with an optional fraction and an
  optional exponent, or is \<open>Infinity\<close>; anything else is NaN. Strings are byte lists, so
  only the ASCII white space characters are recognised.
\<close>

definition is_space :: "char \<Rightarrow> bool" where
  "is_space c = (c \<in> set [CHR 0x09, CHR 0x0A, CHR 0x0B, CHR 0x0C, CHR 0x0D, CHR '' ''])"

definition trim :: "string \<Rightarrow> string" where
  "trim s = rev (dropWhile is_space (rev (dropWhile is_space s)))"

definition digit_val :: "char \<Rightarrow> nat option" where
  "digit_val c =
     (let n = of_char c :: nat in
      if 48 \<le> n \<and> n \<le> 57 then Some (n - 48)
      else if 97 \<le> n \<and> n \<le> 102 then Some (n - 87)
      else if 65 \<le> n \<and> n \<le> 70 then Some (n - 55)
      else None)"

definition is_digit :: "nat \<Rightarrow> char \<Rightarrow> bool" where
  "is_digit base c = (case digit_val c of Some d \<Rightarrow> d < base | None \<Rightarrow> False)"

definition digits_val :: "nat \<Rightarrow> string \<Rightarrow> nat" where
  "digits_val base ds = foldl (\<lambda>acc c. acc * base + (case digit_val c of Some d \<Rightarrow> d | None \<Rightarrow> 0)) 0 ds"

definition radix_literal :: "nat \<Rightarrow> string \<Rightarrow> jsnum" where
  "radix_literal base ds =
     (if ds \<noteq> [] \<and> list_all (is_digit base) ds then Fin (of_nat (digits_val base ds)) else NaN)"

text \<open>The exponent part: \<open>e\<close> or \<open>E\<close>, an optional sign, at least one digit, then the end.\<close>

definition exponent_part :: "string \<Rightarrow> int option" where
  "exponent_part s =
     (case s of
        [] \<Rightarrow> Some 0
      | c # r \<Rightarrow>
          if c = CHR ''e'' \<or> c = CHR ''E'' then
            (let (neg, ds) = (case r of
                                [] \<Rightarrow> (False, [])
                              | d # r' \<Rightarrow> if d = CHR ''-'' then (True, r')
                                         else if d = CHR ''+'' then (False, r') else (False, r))
             in if ds \<noteq> [] \<and> list_all (is_digit 10) ds
                then Some (if neg then - int (digits_val 10 ds) else int (digits_val 10 ds))
                else None)
          else None)"

definition pow10 :: "int \<Rightarrow> rat" where
  "pow10 e = (if 0 \<le> e then 10 ^ nat e else 1 / 10 ^ nat (- e))"

definition unsigned_decimal :: "string \<Rightarrow> jsnum" where
  "unsigned_decimal s =
     (if s = ''Infinity'' then PosInf
      else
        let ip = takeWhile (is_digit 10) s;
            r1 = dropWhile (is_digit 10) s;
            has_dot = (r1 \<noteq> [] \<and> hd r1 = CHR ''.'');
            r2 = (if has_dot then tl r1 else r1);
            fp = (if has_dot then takeWhile (is_digit 10) r2 else []);
            r3 = (if has_dot then dropWhile (is_digit 10) r2 else r2)
        in if ip = [] \<and> fp = [] then NaN
           else (case exponent_part r3 of
                   None \<Rightarrow> NaN
                 | Some e \<Rightarrow>
                     Fin ((of_nat (digits_val 10 ip)
                           + of_nat (digits_val 10 fp) / 10 ^ length fp) * pow10 e)))"

definition num_neg :: "jsnum \<Rightarrow> jsnum" where
  "num_neg n = (case n of NaN \<Rightarrow> NaN | NegInf \<Rightarrow> PosInf | PosInf \<Rightarrow> NegInf | Fin q \<Rightarrow> Fin (- q))"

definition string_to_number :: "string \<Rightarrow> jsnum" where
  "string_to_number s =
     (let t = trim s in
      if t = [] then Fin 0
      else if take 2 t = ''0x'' \<or> take 2 t = ''0X'' then radix_literal 16 (drop 2 t)
      else if take 2 t = ''0o'' \<or> take 2 t = ''0O'' then radix_literal 8 (drop 2 t)
      else if take 2 t = ''0b'' \<or> take 2 t = ''0B'' then radix_literal 2 (drop 2 t)
      else if hd t = CHR ''-'' then num_neg (unsigned_decimal (tl t))
      else if hd t = CHR ''+'' then unsigned_decimal (tl t)
      else unsigned_decimal t)"

text \<open>
  \<open>Number(v)\<close>. An array goes through its string form: the empty array is the empty
  string, a one-element array is the string of its element, and two or more elements are
  joined with commas, which no numeric literal contains.
\<close>

fun to_number :: "jsval \<Rightarrow> jsnum" where
  "to_number JUndefined = NaN"
| "to_number JNull = Fin 0"
| "to_number (JBool b) = (if b then Fin 1 else Fin 0)"
| "to_number (JNum n) = n"
| "to_number (JStr s) = string_to_number s"
| "to_number (JArr []) = Fin 0"
| "to_number (JArr [JUndefined]) = Fin 0"
| "to_number (JArr [JNull]) = Fin 0"
| "to_number (JArr [JBool b]) = NaN"
| "to_number (JArr [JNum n]) = n"
| "to_number (JArr [JStr s]) = string_to_number s"
| "to_number (JArr [JArr xs]) = to_number (JArr xs)"
| "to_number (JArr [JObj kvs]) = NaN"
| "to_number (JArr (x # y # zs)) = NaN"
| "to_number (JObj kvs) = NaN"

section \<open>The two in-memory tables\<close>

text \<open>
  The fields of the stored objects. \<open>id\<close>, \<open>capacity\<close>, \<open>eventId\<close> and \<open>seats\<close> only
  ever receive a number (a seed literal, \<open>nextId\<close> or a \<open>Number(...)\<close> result), so
  their type is \<open>jsnum\<close>; the other fields hold whatever value the request carried.
\<close>

record event =
  e_id :: jsnum
  e_title :: jsval
  e_description :: jsval
  e_date :: jsval
  e_capacity :: jsnum
  e_location :: jsval

record booking =
  b_id :: jsnum
  b_eventId :: jsnum
  b_name :: jsval
  b_email :: jsval
  b_phone :: jsval
  b_seats :: jsnum
  b_createdAt :: string

record state =
  events :: "event list"
  bookings :: "booking list"

text \<open>The tables at start-up; \<open>t0\<close> is the start-up time, \<open>new Date().toISOString()\<close>.\<close>

definition initial_state :: "string \<Rightarrow> state" where
  "initial_state t0 =
     \<lparr>events =
        [\<lparr>e_id = Fin 1, e_title = JStr ''Synergia Tech Talk'',
          e_description = JStr ''A tech talk on fullstack development'',
          e_date = JStr ''2025-12-10'', e_capacity = Fin 100,
          e_location = JStr ''Main Auditorium''\<rparr>],
      bookings =
        [\<lparr>b_id = Fin 1, b_eventId = Fin 1, b_name = JStr ''Alice Kumar'',
          b_email = JStr ''alice@example.com'', b_phone = JStr ''9876543210'',
          b_seats = Fin 1, b_createdAt = t0\<rparr>]\<rparr>"

text \<open>\<open>nextId(arr)\<close>; \<open>get_id\<close> is the \<open>i => i.id\<close> of the source.\<close>

definition nextId :: "('a \<Rightarrow> jsnum) \<Rightarrow> 'a list \<Rightarrow> jsnum" where
  "nextId get_id arr =
     (if length arr \<noteq> 0 then num_add (math_max (map get_id arr)) (Fin 1) else Fin 1)"

text \<open>\<open>arr.findIndex(p)\<close>, with \<open>None\<close> for \<open>-1\<close>; \<open>arr.find(p)\<close> is \<open>find\<close> of the list library.\<close>

fun findIndex :: "('a \<Rightarrow> bool) \<Rightarrow> 'a list \<Rightarrow> nat option" where
  "findIndex p [] = None"
| "findIndex p (x # xs) = (if p x then Some 0 else map_option Suc (findIndex p xs))"

text \<open>\<open>.reduce((s, b) => s + Number(b.seats), 0)\<close>; \<open>Number\<close> leaves the stored number as it is.\<close>

definition sum_seats :: "booking list \<Rightarrow> jsnum" where
  "sum_seats bs = foldl (\<lambda>s b. num_add s (b_seats b)) (Fin 0) bs"

section \<open>Responses and handlers\<close>

datatype payload =
    Error string
  | EventJson event
  | EventList "event list"
  | BookingJson booking
  | BookingList "booking list"
  | EventMessage string event
  | BookingMessage string booking

type_synonym response = "nat \<times> payload"

subsection \<open>Events endpoints\<close>

definition get_events :: "state \<Rightarrow> response \<times> state" where
  "get_events s = ((200, EventList (events s)), s)"

definition post_event :: "state \<Rightarrow> jsval \<Rightarrow> response \<times> state" where
  "post_event s body =
     (let title = get_field body ''title'';
          description = get_field body ''description'';
          date = get_field body ''date'';
          capacity = get_field body ''capacity'';
          location = get_field body ''location''
      in if \<not> truthy title \<or> \<not> truthy date \<or> \<not> truthy capacity
         then ((400, Error ''title, date and capacity are required''), s)
         else
           let ev = \<lparr>e_id = nextId e_id (events s), e_title = title,
                      e_description = js_or description (JStr []), e_date = date,
                      e_capacity = to_number capacity,
                      e_location = js_or location (JStr [])\<rparr>
           in ((201, EventJson ev), s\<lparr>events := events s @ [ev]\<rparr>))"

definition get_event :: "state \<Rightarrow> string \<Rightarrow> response \<times> state" where
  "get_event s param =
     (let id = string_to_number param in
      case find (\<lambda>e. num_eq (e_id e) id) (events s) of
        None \<Rightarrow> ((404, Error ''Event not found''), s)
      | Some ev \<Rightarrow> ((200, EventJson ev), s))"

text \<open>\<open>events[evIndex][k] = k === 'capacity' ? Number(update[k]) : update[k]\<close>, with
  \<open>v\<close> for \<open>update[k]\<close>.\<close>

definition assign_event_field :: "event \<Rightarrow> string \<Rightarrow> jsval \<Rightarrow> event" where
  "assign_event_field e k v =
     (if k = ''capacity'' then e\<lparr>e_capacity := to_number v\<rparr>
      else if k = ''title'' then e\<lparr>e_title := v\<rparr>
      else if k = ''description'' then e\<lparr>e_description := v\<rparr>
      else if k = ''date'' then e\<lparr>e_date := v\<rparr>
      else if k = ''location'' then e\<lparr>e_location := v\<rparr>
      else e)"

definition allowed :: "string list" where
  "allowed = [''title'', ''description'', ''date'', ''capacity'', ''location'']"

definition put_event :: "state \<Rightarrow> string \<Rightarrow> jsval \<Rightarrow> response \<times> state" where
  "put_event s param update =
     (let id = string_to_number param in
      case findIndex (\<lambda>e. num_eq (e_id e) id) (events s) of
        None \<Rightarrow> ((404, Error ''Event not found''), s)
      | Some evIndex \<Rightarrow>
          let evs = foldl (\<lambda>evs k.
                      if get_field update k \<noteq> JUndefined
                      then evs[evIndex := assign_event_field (evs ! evIndex) k (get_field update k)]
                      else evs) (events s) allowed
          in ((200, EventJson (evs ! evIndex)), s\<lparr>events := evs\<rparr>))"

definition delete_event :: "state \<Rightarrow> string \<Rightarrow> response \<times> state" where
  "delete_event s param =
     (let id = string_to_number param in
      case findIndex (\<lambda>e. num_eq (e_id e) id) (events s) of
        None \<Rightarrow> ((404, Error ''Event not found''), s)
      | Some evIndex \<Rightarrow>
          let deletedEvent = events s ! evIndex;
              evs = take evIndex (events s) @ drop (Suc evIndex) (events s);
              bks = filter (\<lambda>b. \<not> num_eq (b_eventId b) id) (bookings s)
          in ((200, EventMessage ''Event cancelled'' deletedEvent),
              s\<lparr>events := evs, bookings := bks\<rparr>))"

subsection \<open>Bookings endpoints\<close>

definition get_bookings :: "state \<Rightarrow> response \<times> state" where
  "get_bookings s = ((200, BookingList (bookings s)), s)"

text \<open>\<open>now\<close> is the \<open>new Date().toISOString()\<close> of the request.\<close>

definition post_booking :: "state \<Rightarrow> jsval \<Rightarrow> string \<Rightarrow> response \<times> state" where
  "post_booking s body now =
     (let eventId = get_field body ''eventId'';
          name = get_field body ''name'';
          email = get_field body ''email'';
          phone = get_field body ''phone'';
          seats = get_field body ''seats''
      in if \<not> truthy eventId \<or> \<not> truthy name \<or> \<not> truthy email \<or> \<not> truthy seats
         then ((400, Error ''eventId, name, email and seats are required''), s)
         else
           case find (\<lambda>e. num_eq (e_id e) (to_number eventId)) (events s) of
             None \<Rightarrow> ((404, Error ''Event not found''), s)
           | Some ev \<Rightarrow>
               let seatsRequested = to_number seats;
                   seatsBooked = sum_seats
                     (filter (\<lambda>b. num_eq (b_eventId b) (to_number eventId)) (bookings s))
               in if num_gt (num_add seatsBooked seatsRequested) (e_capacity ev)
                  then ((400, Error ''Not enough seats available''), s)
                  else
                    let bk = \<lparr>b_id = nextId b_id (bookings s), b_eventId = to_number eventId,
                               b_name = name, b_email = email,
                               b_phone = js_or phone (JStr []), b_seats = seatsRequested,
                               b_createdAt = now\<rparr>
                    in ((201, BookingJson bk), s\<lparr>bookings := bookings s @ [bk]\<rparr>))"

definition get_booking :: "state \<Rightarrow> string \<Rightarrow> response \<times> state" where
  "get_booking s param =
     (let id = string_to_number param in
      case find (\<lambda>x. num_eq (b_id x) id) (bookings s) of
        None \<Rightarrow> ((404, Error ''Booking not found''), s)
      | Some b \<Rightarrow> ((200, BookingJson b), s))"

text \<open>\<open>bookings[idx][k] = update[k]\<close> for the three names of the second loop.\<close>

definition assign_booking_field :: "booking \<Rightarrow> string \<Rightarrow> jsval \<Rightarrow> booking" where
  "assign_booking_field b k v =
     (if k = ''name'' then b\<lparr>b_name := v\<rparr>
      else if k = ''email'' then b\<lparr>b_email := v\<rparr>
      else if k = ''phone'' then b\<lparr>b_phone := v\<rparr>
      else b)"

text \<open>The \<open>if (update.seats !== undefined)\<close> block: \<open>Inl\<close> is an early return, \<open>Inr\<close> the
  bookings array when control reaches the second loop; \<open>bid\<close> is the handler's \<open>id\<close>.\<close>

definition update_seats :: "state \<Rightarrow> jsnum \<Rightarrow> nat \<Rightarrow> jsval \<Rightarrow> response + booking list" where
  "update_seats s bid idx update =
     (if get_field update ''seats'' \<noteq> JUndefined then
        (case find (\<lambda>e. num_eq (e_id e) (b_eventId (bookings s ! idx))) (events s) of
           None \<Rightarrow> Inl (500, Error ''Associated event missing'')
         | Some ev \<Rightarrow>
             let newSeats = to_number (get_field update ''seats'');
                 seatsOther = sum_seats
                   (filter (\<lambda>b. num_eq (b_eventId b) (b_eventId (bookings s ! idx))
                                 \<and> \<not> num_eq (b_id b) bid) (bookings s))
             in if num_gt (num_add seatsOther newSeats) (e_capacity ev)
                then Inl (400, Error ''Not enough seats available for this update'')
                else Inr ((bookings s)[idx := (bookings s ! idx)\<lparr>b_seats := newSeats\<rparr>]))
      else Inr (bookings s))"

definition put_booking :: "state \<Rightarrow> string \<Rightarrow> jsval \<Rightarrow> response \<times> state" where
  "put_booking s param update =
     (let id = string_to_number param in
      case findIndex (\<lambda>b. num_eq (b_id b) id) (bookings s) of
        None \<Rightarrow> ((404, Error ''Booking not found''), s)
      | Some idx \<Rightarrow>
          (case update_seats s id idx update of
             Inl r \<Rightarrow> (r, s)
           | Inr bks0 \<Rightarrow>
               let bks = foldl (\<lambda>bks k.
                           if get_field update k \<noteq> JUndefined
                           then bks[idx := assign_booking_field (bks ! idx) k (get_field update k)]
                           else bks) bks0 [''name'', ''email'', ''phone'']
               in ((200, BookingJson (bks ! idx)), s\<lparr>bookings := bks\<rparr>)))"

definition delete_booking :: "state \<Rightarrow> string \<Rightarrow> response \<times> state" where
  "delete_booking s param =
     (let id = string_to_number param in
      case findIndex (\<lambda>b. num_eq (b_id b) id) (bookings s) of
        None \<Rightarrow> ((404, Error ''Booking not found''), s)
      | Some idx \<Rightarrow>
          let deleted = bookings s ! idx
          in ((200, BookingMessage ''Booking cancelled'' deleted),
              s\<lparr>bookings := take idx (bookings s) @ drop (Suc idx) (bookings s)\<rparr>))"

subsection \<open>Requests, one at a time\<close>

datatype request =
    GetEvents
  | PostEvent jsval
  | GetEvent string
  | PutEvent string jsval
  | DeleteEvent string
  | GetBookings
  | PostBooking jsval string
  | GetBooking string
  | PutBooking string jsval
  | DeleteBooking string

fun handle :: "state \<Rightarrow> request \<Rightarrow> response \<times> state" where
  "handle s GetEvents = get_events s"
| "handle s (PostEvent body) = post_event s body"
| "handle s (GetEvent p) = get_event s p"
| "handle s (PutEvent p body) = put_event s p body"
| "handle s (DeleteEvent p) = delete_event s p"
| "handle s GetBookings = get_bookings s"
| "handle s (PostBooking body now) = post_booking s body now"
| "handle s (GetBooking p) = get_booking s p"
| "handle s (PutBooking p body) = put_booking s p body"
| "handle s (DeleteBooking p) = delete_booking s p"

text \<open>The states the server can be in: the start-up tables, and whatever a request run to
  completion on such a state leaves.\<close>

inductive reachable :: "state \<Rightarrow> bool" where
  start: "reachable (initial_state t0)"
| step: "reachable s \<Longrightarrow> reachable (snd (handle s r))"

text \<open>Running a list of requests in order.\<close>

fun run :: "state \<Rightarrow> request list \<Rightarrow> state" where
  "run s [] = s"
| "run s (r # rs) = run (snd (handle s r)) rs"

section \<open>Properties of the tables\<close>


definition positive_integer :: "jsnum \<Rightarrow> bool" where
  "positive_integer x = (case x of Fin q \<Rightarrow> 0 < q \<and> of_int \<lfloor>q\<rfloor> = q | _ \<Rightarrow> False)"

text \<open>Ids are positive integers and no two events, and no two bookings, share one.\<close>

definition ids_ok :: "state \<Rightarrow> bool" where
  "ids_ok s =
     (distinct (map e_id (events s)) \<and> list_all (\<lambda>e. positive_integer (e_id e)) (events s)
      \<and> distinct (map b_id (bookings s)) \<and> list_all (\<lambda>b. positive_integer (b_id b)) (bookings s))"


text \<open>A request whose seats, if it sets any, coerce to a positive integer.\<close>

fun positive_seats :: "request \<Rightarrow> bool" where
  "positive_seats (PostBooking body now) = positive_integer (to_number (get_field body ''seats''))"
| "positive_seats (PutBooking p u) =
     (get_field u ''seats'' = JUndefined \<or> positive_integer (to_number (get_field u ''seats'')))"
| "positive_seats _ = True"


section \<open>Basic facts\<close>

subsection \<open>Searching an array\<close>

lemma findIndex_Some:
  "findIndex p xs = Some i \<Longrightarrow> i < length xs \<and> p (xs ! i) \<and> (\<forall>j<i. \<not> p (xs ! j))"
proof (induction xs arbitrary: i)
  case Nil
  then show ?case by simp
next
  case (Cons x xs)
  show ?case
  proof (cases "p x")
    case True
    with Cons.prems show ?thesis by simp
  next
    case False
    with Cons.prems obtain k where k: "findIndex p xs = Some k" "i = Suc k"
      by auto
    from Cons.IH[OF k(1)] False k(2) show ?thesis
      by (auto simp: nth_Cons split: nat.splits)
  qed
qed


lemma find_None_ball: "(find P xs = None) = (\<forall>x\<in>set xs. \<not> P x)"
  by (induction xs) auto


subsection \<open>NaN in sums and comparisons\<close>



subsection \<open>Some path parameters and inputs, coerced\<close>

lemma number_of_1: "string_to_number ''1'' = Fin 1"
  by code_simp



lemma number_of_abc: "string_to_number ''abc'' = NaN"
  by code_simp

subsection \<open>Order, \<open>Math.max\<close> and \<open>nextId\<close>\<close>

lemma num_lt_irrefl: "\<not> num_lt x x"
  by (cases x) simp_all

lemma num_lt_trans_le: "x \<noteq> NaN \<Longrightarrow> y \<noteq> NaN \<Longrightarrow> z \<noteq> NaN \<Longrightarrow>
    \<not> num_lt z y \<Longrightarrow> \<not> num_lt y x \<Longrightarrow> \<not> num_lt z x"
  by (cases x; cases y; cases z) simp_all

lemma num_max_cases: "a \<noteq> NaN \<Longrightarrow> b \<noteq> NaN \<Longrightarrow>
    num_max a b \<noteq> NaN \<and> (num_max a b = a \<or> num_max a b = b)
    \<and> \<not> num_lt (num_max a b) a \<and> \<not> num_lt (num_max a b) b"
  by (cases a; cases b) (simp_all add: num_max_def)

lemma foldl_num_max:
  assumes "acc \<noteq> NaN" "\<forall>x\<in>set xs. x \<noteq> NaN"
  shows "foldl num_max acc xs \<noteq> NaN
         \<and> foldl num_max acc xs \<in> insert acc (set xs)
         \<and> \<not> num_lt (foldl num_max acc xs) acc
         \<and> (\<forall>x\<in>set xs. \<not> num_lt (foldl num_max acc xs) x)"
  using assms
proof (induction xs arbitrary: acc)
  case Nil
  then show ?case by (simp add: num_lt_irrefl)
next
  case (Cons x xs)
  let ?m = "num_max acc x"
  let ?r = "foldl num_max ?m xs"
  from Cons.prems have x: "x \<noteq> NaN" and rest: "\<forall>y\<in>set xs. y \<noteq> NaN" by simp_all
  from num_max_cases[OF Cons.prems(1) x]
  have m: "?m \<noteq> NaN" "?m = acc \<or> ?m = x" "\<not> num_lt ?m acc" "\<not> num_lt ?m x" by simp_all
  from Cons.IH[OF m(1) rest]
  have r: "?r \<noteq> NaN" "?r \<in> insert ?m (set xs)" "\<not> num_lt ?r ?m"
    "\<forall>y\<in>set xs. \<not> num_lt ?r y" by simp_all
  have "\<not> num_lt ?r acc"
    using num_lt_trans_le[OF Cons.prems(1) m(1) r(1) r(3) m(3)] .
  moreover have "\<not> num_lt ?r x"
    using num_lt_trans_le[OF x m(1) r(1) r(3) m(4)] .
  moreover have "?r \<in> insert acc (set (x # xs))"
    using r(2) m(2) by auto
  ultimately show ?case using r(1) r(4) by simp
qed

lemma positive_integer_Fin: "positive_integer x \<Longrightarrow> \<exists>q. x = Fin q \<and> 0 < q \<and> of_int \<lfloor>q\<rfloor> = q"
  by (cases x) (simp_all add: positive_integer_def)

lemma positive_integer_not_NaN: "positive_integer x \<Longrightarrow> x \<noteq> NaN"
  by (auto simp: positive_integer_def)

lemma positive_integer_succ: "positive_integer x \<Longrightarrow> positive_integer (num_add x (Fin 1))"
proof -
  assume "positive_integer x"
  then obtain q where q: "x = Fin q" "0 < q" "of_int \<lfloor>q\<rfloor> = q"
    using positive_integer_Fin by blast
  have "of_int \<lfloor>q + 1\<rfloor> = q + 1" using q(3) by simp
  with q show ?thesis by (simp add: positive_integer_def)
qed

lemma num_lt_succ: "positive_integer x \<Longrightarrow> y \<noteq> NaN \<Longrightarrow> \<not> num_lt x y \<Longrightarrow> num_lt y (num_add x (Fin 1))"
  by (cases x; cases y) (auto simp: positive_integer_def)

text \<open>The id that \<open>nextId\<close> hands out is a positive integer greater than every stored id.\<close>

lemma nextId_fresh:
  assumes "list_all (\<lambda>x. positive_integer (get_id x)) arr"
  shows "positive_integer (nextId get_id arr)
         \<and> (\<forall>x\<in>set arr. num_lt (get_id x) (nextId get_id arr))"
proof (cases "arr = []")
  case True
  then show ?thesis by (simp add: nextId_def positive_integer_def)
next
  case False
  let ?ids = "map get_id arr"
  from assms have pos: "\<forall>y\<in>set ?ids. positive_integer y"
    by (auto simp: list_all_iff)
  then have nn: "\<forall>y\<in>set ?ids. y \<noteq> NaN"
    using positive_integer_not_NaN by blast
  from foldl_num_max[of NegInf ?ids] nn
  have m: "math_max ?ids \<in> insert NegInf (set ?ids)"
    "\<not> num_lt (math_max ?ids) NegInf"
    "\<forall>y\<in>set ?ids. \<not> num_lt (math_max ?ids) y"
    by (simp_all add: math_max_def)
  from False obtain a where a: "a \<in> set ?ids" by (cases arr) auto
  with pos have "positive_integer a" by blast
  then obtain q where q: "a = Fin q" using positive_integer_Fin by blast
  have "math_max ?ids \<noteq> NegInf"
  proof
    assume "math_max ?ids = NegInf"
    with m(3) a have "\<not> num_lt NegInf a" by metis
    with q show False by simp
  qed
  with m(1) have mem: "math_max ?ids \<in> set ?ids" by simp
  with pos have pm: "positive_integer (math_max ?ids)" by blast
  have "positive_integer (nextId get_id arr)"
    using False pm by (simp add: nextId_def positive_integer_succ)
  moreover have "\<forall>x\<in>set arr. num_lt (get_id x) (nextId get_id arr)"
  proof
    fix x assume x: "x \<in> set arr"
    then have "get_id x \<in> set ?ids" by simp
    with m(3) nn have "\<not> num_lt (math_max ?ids) (get_id x)" "get_id x \<noteq> NaN" by blast+
    from num_lt_succ[OF pm this(2) this(1)] False
    show "num_lt (get_id x) (nextId get_id arr)" by (simp add: nextId_def)
  qed
  ultimately show ?thesis by blast
qed

lemma nextId_not_stored:
  assumes "list_all (\<lambda>x. positive_integer (get_id x)) arr"
  shows "nextId get_id arr \<notin> set (map get_id arr)"
proof
  assume "nextId get_id arr \<in> set (map get_id arr)"
  then obtain x where "x \<in> set arr" "get_id x = nextId get_id arr" by auto
  with nextId_fresh[OF assms] have "num_lt (nextId get_id arr) (nextId get_id arr)" by metis
  then show False by (simp add: num_lt_irrefl)
qed

subsection \<open>The two assignment loops\<close>

lemma booking_fields_loop:
  assumes "idx < length bks0"
  shows "foldl (\<lambda>bks k.
            if get_field u k \<noteq> JUndefined
            then bks[idx := assign_booking_field (bks ! idx) k (get_field u k)]
            else bks) bks0 [''name'', ''email'', ''phone'']
         = bks0[idx := (bks0 ! idx)
              \<lparr>b_name := (if get_field u ''name'' \<noteq> JUndefined then get_field u ''name''
                          else b_name (bks0 ! idx)),
               b_email := (if get_field u ''email'' \<noteq> JUndefined then get_field u ''email''
                           else b_email (bks0 ! idx)),
               b_phone := (if get_field u ''phone'' \<noteq> JUndefined then get_field u ''phone''
                           else b_phone (bks0 ! idx))\<rparr>]"
  using assms by (simp add: assign_booking_field_def list_update_same_conv)

lemma event_fields_loop:
  assumes "i < length evs0"
  shows "foldl (\<lambda>evs k.
            if get_field u k \<noteq> JUndefined
            then evs[i := assign_event_field (evs ! i) k (get_field u k)]
            else evs) evs0 allowed
         = evs0[i := (evs0 ! i)
              \<lparr>e_title := (if get_field u ''title'' \<noteq> JUndefined then get_field u ''title''
                           else e_title (evs0 ! i)),
               e_description := (if get_field u ''description'' \<noteq> JUndefined
                           then get_field u ''description'' else e_description (evs0 ! i)),
               e_date := (if get_field u ''date'' \<noteq> JUndefined then get_field u ''date''
                           else e_date (evs0 ! i)),
               e_capacity := (if get_field u ''capacity'' \<noteq> JUndefined
                           then to_number (get_field u ''capacity'') else e_capacity (evs0 ! i)),
               e_location := (if get_field u ''location'' \<noteq> JUndefined
                           then get_field u ''location'' else e_location (evs0 ! i))\<rparr>]"
  using assms by (simp add: allowed_def assign_event_field_def list_update_same_conv)

subsection \<open>Removing one element, replacing one element\<close>

lemma distinct_remove_nth:
  "distinct (map f xs) \<Longrightarrow> distinct (map f (take i xs @ drop (Suc i) xs))"
proof (induction xs arbitrary: i)
  case Nil
  then show ?case by simp
next
  case (Cons x xs)
  show ?case
  proof (cases i)
    case 0
    with Cons.prems show ?thesis by simp
  next
    case (Suc j)
    from Cons.prems have d: "distinct (map f xs)" and nx: "f x \<notin> f ` set xs" by simp_all
    have "set (take j xs @ drop (Suc j) xs) \<subseteq> set xs"
      using set_take_subset[of j xs] set_drop_subset[of "Suc j" xs] by auto
    with nx have "f x \<notin> f ` set (take j xs @ drop (Suc j) xs)" by blast
    with Cons.IH[OF d, of j] Suc show ?thesis by (auto simp: image_Un)
  qed
qed

lemma list_all_remove_nth: "list_all P xs \<Longrightarrow> list_all P (take i xs @ drop (Suc i) xs)"
  by (auto simp: list_all_iff dest: in_set_takeD in_set_dropD)

lemma map_update_same: "i < length xs \<Longrightarrow> f y = f (xs ! i) \<Longrightarrow> map f (xs[i := y]) = map f xs"
  by (simp add: map_update list_update_same_conv)

lemma put_event_frame:
  "map e_id (events (snd (put_event s p u))) = map e_id (events s)
   \<and> bookings (snd (put_event s p u)) = bookings s"
proof (cases "findIndex (\<lambda>e. num_eq (e_id e) (string_to_number p)) (events s)")
  case None
  then show ?thesis by (simp add: put_event_def)
next
  case (Some i)
  from findIndex_Some[OF Some] have lt: "i < length (events s)" by simp
  show ?thesis
    using Some lt
    by (simp add: put_event_def Let_def event_fields_loop map_update_same del: foldl.simps)
qed

lemma put_booking_frame:
  "map b_id (bookings (snd (put_booking s p u))) = map b_id (bookings s)
   \<and> map b_eventId (bookings (snd (put_booking s p u))) = map b_eventId (bookings s)
   \<and> events (snd (put_booking s p u)) = events s"
proof (cases "findIndex (\<lambda>b. num_eq (b_id b) (string_to_number p)) (bookings s)")
  case None
  then show ?thesis by (simp add: put_booking_def)
next
  case (Some idx)
  from findIndex_Some[OF Some] have lt: "idx < length (bookings s)" by simp
  show ?thesis
  proof (cases "update_seats s (string_to_number p) idx u")
    case (Inl r)
    with Some show ?thesis by (simp add: put_booking_def)
  next
    case (Inr bks0)
    then have "bks0 = bookings s
               \<or> bks0 = (bookings s)[idx := (bookings s ! idx)
                            \<lparr>b_seats := to_number (get_field u ''seats'')\<rparr>]"
      by (auto simp: update_seats_def Let_def split: if_splits option.splits)
    then have len: "idx < length bks0" and ids: "map b_id bks0 = map b_id (bookings s)"
      and eids: "map b_eventId bks0 = map b_eventId (bookings s)"
      using lt by (auto simp: map_update_same)
    show ?thesis
      using Some Inr len ids eids
      by (simp add: put_booking_def Let_def booking_fields_loop map_update_same del: foldl.simps)
  qed
qed

lemma list_all_take_drop: "list_all P xs \<Longrightarrow> list_all P (take i xs) \<and> list_all P (drop j xs)"
  by (auto simp: list_all_iff dest: in_set_takeD in_set_dropD)

lemma list_all_filter: "list_all P xs \<Longrightarrow> list_all P (filter Q xs)"
  by (simp add: list_all_iff)

lemma list_all_map_id: "list_all (\<lambda>x. P (f x)) xs = list_all P (map f xs)"
  by (simp add: list_all_iff)

lemma post_event_state:
  "snd (post_event s body) = s
   \<or> (\<exists>ev. e_id ev = nextId e_id (events s) \<and> snd (post_event s body) = s\<lparr>events := events s @ [ev]\<rparr>)"
proof (cases "\<not> truthy (get_field body ''title'') \<or> \<not> truthy (get_field body ''date'')
              \<or> \<not> truthy (get_field body ''capacity'')")
  case True
  then show ?thesis by (simp add: post_event_def Let_def)
next
  case False
  then show ?thesis
    by (intro disjI2
          exI[of _ "\<lparr>e_id = nextId e_id (events s), e_title = get_field body ''title'',
                    e_description = js_or (get_field body ''description'') (JStr []),
                    e_date = get_field body ''date'',
                    e_capacity = to_number (get_field body ''capacity''),
                    e_location = js_or (get_field body ''location'') (JStr [])\<rparr>"])
       (simp add: post_event_def Let_def)
qed

lemma post_booking_state:
  "snd (post_booking s body now) = s
   \<or> (\<exists>bk. b_id bk = nextId b_id (bookings s)
         \<and> b_eventId bk = to_number (get_field body ''eventId'')
         \<and> b_seats bk = to_number (get_field body ''seats'')
         \<and> fst (fst (post_booking s body now)) = 201
         \<and> snd (post_booking s body now) = s\<lparr>bookings := bookings s @ [bk]\<rparr>)"
proof (cases "fst (fst (post_booking s body now)) = 201")
  case False
  then show ?thesis
    by (auto simp: post_booking_def Let_def split: option.splits if_splits)
next
  case True
  then show ?thesis
    by (intro disjI2
          exI[of _ "\<lparr>b_id = nextId b_id (bookings s),
                    b_eventId = to_number (get_field body ''eventId''),
                    b_name = get_field body ''name'', b_email = get_field body ''email'',
                    b_phone = js_or (get_field body ''phone'') (JStr []),
                    b_seats = to_number (get_field body ''seats''), b_createdAt = now\<rparr>"])
       (simp add: post_booking_def Let_def split: option.splits if_splits)
qed

lemma delete_event_state:
  "snd (delete_event s p) = s
   \<or> (\<exists>i. findIndex (\<lambda>e. num_eq (e_id e) (string_to_number p)) (events s) = Some i
         \<and> snd (delete_event s p)
            = s\<lparr>events := take i (events s) @ drop (Suc i) (events s),
                bookings := filter (\<lambda>b. \<not> num_eq (b_eventId b) (string_to_number p)) (bookings s)\<rparr>)"
  by (simp add: delete_event_def Let_def split: option.splits)

lemma delete_booking_state:
  "snd (delete_booking s p) = s
   \<or> (\<exists>i. findIndex (\<lambda>b. num_eq (b_id b) (string_to_number p)) (bookings s) = Some i
         \<and> snd (delete_booking s p)
            = s\<lparr>bookings := take i (bookings s) @ drop (Suc i) (bookings s)\<rparr>)"
  by (simp add: delete_booking_def Let_def split: option.splits)

lemma ids_ok_post_event: assumes ok: "ids_ok s" shows "ids_ok (snd (post_event s body))"
proof -
  from ok have pos: "list_all (\<lambda>e. positive_integer (e_id e)) (events s)" by (simp add: ids_ok_def)
  from post_event_state[of s body] show ?thesis
  proof
    assume "snd (post_event s body) = s" with ok show ?thesis by simp
  next
    assume "\<exists>ev. e_id ev = nextId e_id (events s)
              \<and> snd (post_event s body) = s\<lparr>events := events s @ [ev]\<rparr>"
    then obtain ev where ev: "e_id ev = nextId e_id (events s)"
      "snd (post_event s body) = s\<lparr>events := events s @ [ev]\<rparr>" by blast
    from nextId_fresh[OF pos] have "positive_integer (e_id ev)" by (simp add: ev(1))
    moreover from nextId_not_stored[OF pos] have "e_id ev \<notin> set (map e_id (events s))"
      by (simp add: ev(1))
    ultimately show ?thesis using ok by (simp add: ev(2) ids_ok_def)
  qed
qed

lemma ids_ok_post_booking: assumes ok: "ids_ok s" shows "ids_ok (snd (post_booking s body now))"
proof -
  from ok have pos: "list_all (\<lambda>b. positive_integer (b_id b)) (bookings s)" by (simp add: ids_ok_def)
  from post_booking_state[of s body now] show ?thesis
  proof
    assume "snd (post_booking s body now) = s" with ok show ?thesis by simp
  next
    assume "\<exists>bk. b_id bk = nextId b_id (bookings s)
         \<and> b_eventId bk = to_number (get_field body ''eventId'')
         \<and> b_seats bk = to_number (get_field body ''seats'')
         \<and> fst (fst (post_booking s body now)) = 201
         \<and> snd (post_booking s body now) = s\<lparr>bookings := bookings s @ [bk]\<rparr>"
    then obtain bk where bk: "b_id bk = nextId b_id (bookings s)"
      "snd (post_booking s body now) = s\<lparr>bookings := bookings s @ [bk]\<rparr>" by blast
    from nextId_fresh[OF pos] have "positive_integer (b_id bk)" by (simp add: bk(1))
    moreover from nextId_not_stored[OF pos] have "b_id bk \<notin> set (map b_id (bookings s))"
      by (simp add: bk(1))
    ultimately show ?thesis using ok by (simp add: bk(2) ids_ok_def)
  qed
qed

lemma ids_ok_put_event: assumes ok: "ids_ok s" shows "ids_ok (snd (put_event s p u))"
proof -
  from put_event_frame[of s p u]
  have f: "map e_id (events (snd (put_event s p u))) = map e_id (events s)"
    "bookings (snd (put_event s p u)) = bookings s" by simp_all
  from ok show ?thesis
    unfolding ids_ok_def list_all_map_id[of positive_integer e_id] f by simp
qed

lemma ids_ok_put_booking: assumes ok: "ids_ok s" shows "ids_ok (snd (put_booking s p u))"
proof -
  from put_booking_frame[of s p u]
  have f: "map b_id (bookings (snd (put_booking s p u))) = map b_id (bookings s)"
    "events (snd (put_booking s p u)) = events s" by simp_all
  from ok show ?thesis
    unfolding ids_ok_def list_all_map_id[of positive_integer b_id] f by simp
qed

lemma ids_ok_delete_event: assumes ok: "ids_ok s" shows "ids_ok (snd (delete_event s p))"
proof -
  from delete_event_state[of s p] show ?thesis
  proof
    assume "snd (delete_event s p) = s" with ok show ?thesis by simp
  next
    assume "\<exists>i. findIndex (\<lambda>e. num_eq (e_id e) (string_to_number p)) (events s) = Some i
         \<and> snd (delete_event s p)
            = s\<lparr>events := take i (events s) @ drop (Suc i) (events s),
                bookings := filter (\<lambda>b. \<not> num_eq (b_eventId b) (string_to_number p)) (bookings s)\<rparr>"
    then obtain i where i: "snd (delete_event s p)
            = s\<lparr>events := take i (events s) @ drop (Suc i) (events s),
                bookings := filter (\<lambda>b. \<not> num_eq (b_eventId b) (string_to_number p)) (bookings s)\<rparr>"
      by blast
    from ok show ?thesis
      by (simp add: i ids_ok_def distinct_remove_nth list_all_take_drop distinct_map_filter
          list_all_filter del: map_append)
  qed
qed

lemma ids_ok_delete_booking: assumes ok: "ids_ok s" shows "ids_ok (snd (delete_booking s p))"
proof -
  from delete_booking_state[of s p] show ?thesis
  proof
    assume "snd (delete_booking s p) = s" with ok show ?thesis by simp
  next
    assume "\<exists>i. findIndex (\<lambda>b. num_eq (b_id b) (string_to_number p)) (bookings s) = Some i
         \<and> snd (delete_booking s p)
            = s\<lparr>bookings := take i (bookings s) @ drop (Suc i) (bookings s)\<rparr>"
    then obtain i where i: "snd (delete_booking s p)
            = s\<lparr>bookings := take i (bookings s) @ drop (Suc i) (bookings s)\<rparr>"
      by blast
    from ok show ?thesis
      by (simp add: i ids_ok_def distinct_remove_nth list_all_take_drop del: map_append)
  qed
qed

lemma ids_ok_handle: "ids_ok s \<Longrightarrow> ids_ok (snd (handle s r))"
proof (cases r)
  case GetEvents
  assume "ids_ok s" with GetEvents show ?thesis by (simp add: get_events_def)
next
  case (PostEvent body)
  assume "ids_ok s" with PostEvent show ?thesis by (simp add: ids_ok_post_event)
next
  case (GetEvent p)
  assume "ids_ok s" with GetEvent show ?thesis
    by (simp add: get_event_def Let_def split: option.splits)
next
  case (PutEvent p body)
  assume "ids_ok s" with PutEvent show ?thesis by (simp add: ids_ok_put_event)
next
  case (DeleteEvent p)
  assume "ids_ok s" with DeleteEvent show ?thesis by (simp add: ids_ok_delete_event)
next
  case GetBookings
  assume "ids_ok s" with GetBookings show ?thesis by (simp add: get_bookings_def)
next
  case (PostBooking body now)
  assume "ids_ok s" with PostBooking show ?thesis by (simp add: ids_ok_post_booking)
next
  case (GetBooking p)
  assume "ids_ok s" with GetBooking show ?thesis
    by (simp add: get_booking_def Let_def split: option.splits)
next
  case (PutBooking p body)
  assume "ids_ok s" with PutBooking show ?thesis by (simp add: ids_ok_put_booking)
next
  case (DeleteBooking p)
  assume "ids_ok s" with DeleteBooking show ?thesis by (simp add: ids_ok_delete_booking)
qed

lemma reachable_ids_ok: "reachable s \<Longrightarrow> ids_ok s"
proof (induction rule: reachable.induct)
  case (start t0)
  show ?case by (simp add: ids_ok_def initial_state_def positive_integer_def)
next
  case (step s r)
  then show ?case by (simp add: ids_ok_handle)
qed

lemma num_eq_iff: "b \<noteq> NaN \<Longrightarrow> num_eq a b = (a = b)"
  by (auto simp: num_eq_def)

lemma num_eq_not_NaN: "num_eq a b \<Longrightarrow> a = b \<and> b \<noteq> NaN"
  by (auto simp: num_eq_def)

lemma remove_nth_filter:
  "distinct (map f xs) \<Longrightarrow> i < length xs \<Longrightarrow>
   take i xs @ drop (Suc i) xs = filter (\<lambda>x. f x \<noteq> f (xs ! i)) xs"
proof (induction xs arbitrary: i)
  case Nil
  then show ?case by simp
next
  case (Cons x xs)
  from Cons.prems have d: "distinct (map f xs)" and nx: "f x \<notin> f ` set xs" by simp_all
  show ?case
  proof (cases i)
    case 0
    from nx have "\<forall>y\<in>set xs. f y \<noteq> f x" by (metis imageI)
    then have "filter (\<lambda>y. f y \<noteq> f x) xs = xs"
      by (simp add: filter_id_conv)
    with 0 show ?thesis by simp
  next
    case (Suc j)
    with Cons.prems have j: "j < length xs" by simp
    then have "xs ! j \<in> set xs" by simp
    with nx have "f x \<noteq> f (xs ! j)" by auto
    with Cons.IH[OF d j] Suc show ?thesis by simp
  qed
qed

subsection \<open>Creating and undoing\<close>




lemma remove_last_added: "take (length xs) (xs @ [x]) @ drop (Suc (length xs)) (xs @ [x]) = xs"
  by simp






subsection \<open>The state after a booking update\<close>

text \<open>What a \<open>PUT /api/bookings/:id\<close> leaves: nothing changed, or one booking replaced by one
  with the same id and event, whose seats are the new ones if the body carried any.\<close>

lemma put_booking_state:
  "snd (put_booking s p u) = s
   \<or> (\<exists>idx b'. findIndex (\<lambda>b. num_eq (b_id b) (string_to_number p)) (bookings s) = Some idx
         \<and> idx < length (bookings s)
         \<and> snd (put_booking s p u) = s\<lparr>bookings := (bookings s)[idx := b']\<rparr>
         \<and> b_id b' = b_id (bookings s ! idx)
         \<and> b_eventId b' = b_eventId (bookings s ! idx)
         \<and> (get_field u ''seats'' = JUndefined \<longrightarrow> b_seats b' = b_seats (bookings s ! idx))
         \<and> (get_field u ''seats'' \<noteq> JUndefined \<longrightarrow>
               b_seats b' = to_number (get_field u ''seats'')
               \<and> (\<exists>ev. find (\<lambda>e. num_eq (e_id e) (b_eventId (bookings s ! idx))) (events s) = Some ev
                     \<and> \<not> num_gt (num_add
                           (sum_seats (filter (\<lambda>b. num_eq (b_eventId b) (b_eventId (bookings s ! idx))
                                \<and> \<not> num_eq (b_id b) (string_to_number p)) (bookings s)))
                           (to_number (get_field u ''seats''))) (e_capacity ev))))"
proof (cases "findIndex (\<lambda>b. num_eq (b_id b) (string_to_number p)) (bookings s)")
  case None
  then show ?thesis by (simp add: put_booking_def)
next
  case (Some idx)
  from findIndex_Some[OF Some] have lt: "idx < length (bookings s)" by simp
  show ?thesis
  proof (cases "update_seats s (string_to_number p) idx u")
    case (Inl r)
    with Some show ?thesis by (simp add: put_booking_def)
  next
    case (Inr bks0)
    let ?b = "bookings s ! idx"
    let ?merge = "\<lambda>b. b\<lparr>b_name := (if get_field u ''name'' \<noteq> JUndefined then get_field u ''name''
                                  else b_name b),
                     b_email := (if get_field u ''email'' \<noteq> JUndefined then get_field u ''email''
                                  else b_email b),
                     b_phone := (if get_field u ''phone'' \<noteq> JUndefined then get_field u ''phone''
                                  else b_phone b)\<rparr>"
    show ?thesis
    proof (cases "get_field u ''seats'' = JUndefined")
      case True
      with Inr have bks0: "bks0 = bookings s" by (simp add: update_seats_def)
      have st: "snd (put_booking s p u) = s\<lparr>bookings := (bookings s)[idx := ?merge ?b]\<rparr>"
        using Some Inr lt bks0
        by (simp add: put_booking_def Let_def booking_fields_loop del: foldl.simps)
      show ?thesis
        by (intro disjI2 exI[of _ idx] exI[of _ "?merge ?b"]) (simp add: Some lt st True)
    next
      case False
      with Inr obtain ev where
        ev: "find (\<lambda>e. num_eq (e_id e) (b_eventId ?b)) (events s) = Some ev"
        and ng: "\<not> num_gt (num_add
                   (sum_seats (filter (\<lambda>b. num_eq (b_eventId b) (b_eventId ?b)
                        \<and> \<not> num_eq (b_id b) (string_to_number p)) (bookings s)))
                   (to_number (get_field u ''seats''))) (e_capacity ev)"
        and bks0: "bks0 = (bookings s)[idx := ?b\<lparr>b_seats := to_number (get_field u ''seats'')\<rparr>]"
        by (auto simp: update_seats_def Let_def split: option.splits if_splits)
      have st: "snd (put_booking s p u)
                = s\<lparr>bookings := (bookings s)
                      [idx := ?merge (?b\<lparr>b_seats := to_number (get_field u ''seats'')\<rparr>)]\<rparr>"
        using Some Inr lt bks0
        by (simp add: put_booking_def Let_def booking_fields_loop del: foldl.simps)
      show ?thesis
        by (intro disjI2 exI[of _ idx]
              exI[of _ "?merge (?b\<lparr>b_seats := to_number (get_field u ''seats'')\<rparr>)"])
           (simp add: Some lt st False ev ng)
    qed
  qed
qed

subsection \<open>Seats stay positive integers when the requests' are\<close>

lemma list_all_update: "list_all P xs \<Longrightarrow> P y \<Longrightarrow> list_all P (xs[i := y])"
  by (auto simp: list_all_iff dest: set_update_subset_insert[THEN subsetD])

lemma positive_seats_step:
  assumes inv: "list_all (\<lambda>b. positive_integer (b_seats b)) (bookings s)"
    and req: "positive_seats r"
  shows "list_all (\<lambda>b. positive_integer (b_seats b)) (bookings (snd (handle s r)))"
proof (cases r)
  case GetEvents
  with inv show ?thesis by (simp add: get_events_def)
next
  case (PostEvent body)
  from post_event_state[of s body] inv PostEvent show ?thesis by auto
next
  case (GetEvent p)
  with inv show ?thesis by (simp add: get_event_def Let_def split: option.splits)
next
  case (PutEvent p body)
  from put_event_frame[of s p body] inv PutEvent show ?thesis by simp
next
  case (DeleteEvent p)
  from delete_event_state[of s p] inv DeleteEvent show ?thesis
    by (auto simp: list_all_filter)
next
  case GetBookings
  with inv show ?thesis by (simp add: get_bookings_def)
next
  case (PostBooking body now)
  with req have pos: "positive_integer (to_number (get_field body ''seats''))" by simp
  from post_booking_state[of s body now] inv pos PostBooking show ?thesis by auto
next
  case (GetBooking p)
  with inv show ?thesis by (simp add: get_booking_def Let_def split: option.splits)
next
  case (PutBooking p u)
  with req have pos: "get_field u ''seats'' = JUndefined
      \<or> positive_integer (to_number (get_field u ''seats''))" by simp
  from put_booking_state[of s p u] show ?thesis
  proof
    assume "snd (put_booking s p u) = s"
    with inv PutBooking show ?thesis by simp
  next
    assume "\<exists>idx b'. findIndex (\<lambda>b. num_eq (b_id b) (string_to_number p)) (bookings s) = Some idx
         \<and> idx < length (bookings s)
         \<and> snd (put_booking s p u) = s\<lparr>bookings := (bookings s)[idx := b']\<rparr>
         \<and> b_id b' = b_id (bookings s ! idx)
         \<and> b_eventId b' = b_eventId (bookings s ! idx)
         \<and> (get_field u ''seats'' = JUndefined \<longrightarrow> b_seats b' = b_seats (bookings s ! idx))
         \<and> (get_field u ''seats'' \<noteq> JUndefined \<longrightarrow>
               b_seats b' = to_number (get_field u ''seats'')
               \<and> (\<exists>ev. find (\<lambda>e. num_eq (e_id e) (b_eventId (bookings s ! idx))) (events s) = Some ev
                     \<and> \<not> num_gt (num_add
                           (sum_seats (filter (\<lambda>b. num_eq (b_eventId b) (b_eventId (bookings s ! idx))
                                \<and> \<not> num_eq (b_id b) (string_to_number p)) (bookings s)))
                           (to_number (get_field u ''seats''))) (e_capacity ev)))"
    then obtain idx b' where lt: "idx < length (bookings s)"
      and st: "snd (put_booking s p u) = s\<lparr>bookings := (bookings s)[idx := b']\<rparr>"
      and keep: "get_field u ''seats'' = JUndefined \<longrightarrow> b_seats b' = b_seats (bookings s ! idx)"
      and new: "get_field u ''seats'' \<noteq> JUndefined \<longrightarrow> b_seats b' = to_number (get_field u ''seats'')"
      by blast
    from inv lt have old: "positive_integer (b_seats (bookings s ! idx))"
      by (simp add: list_all_length)
    from pos keep new old have "positive_integer (b_seats b')" by auto
    with inv PutBooking st show ?thesis by (simp add: list_all_update)
  qed
next
  case (DeleteBooking p)
  from delete_booking_state[of s p] inv DeleteBooking show ?thesis
    by (auto simp: list_all_take_drop)
qed

lemma positive_seats_run:
  "list_all (\<lambda>b. positive_integer (b_seats b)) (bookings s) \<Longrightarrow> list_all positive_seats rs \<Longrightarrow>
   list_all (\<lambda>b. positive_integer (b_seats b)) (bookings (run s rs))"
proof (induction rs arbitrary: s)
  case Nil
  then show ?case by simp
next
  case (Cons r rs)
  from Cons.prems have r: "positive_seats r" and rs: "list_all positive_seats rs" by simp_all
  from positive_seats_step[OF Cons.prems(1) r] Cons.IH[OF _ rs] show ?case by simp
qed

subsection \<open>Sums of seats\<close>










subsection \<open>The capacity bound, handler by handler\<close>







subsection \<open>The id after the highest one is removed\<close>






lemmas eval_defs = initial_state_def num_eq_def num_gt_def num_le_def sum_seats_def
  nextId_def math_max_def num_max_def js_or_def Let_def

section \<open>Booking update: a rejected seats change\<close>

text \<open>
  C4. When \<open>PUT /api/bookings/:id\<close> finds the booking, the body carries \<open>seats\<close>, the
  booking's event exists, and the seats of the other bookings of that event plus the new
  seats exceed the event's capacity, the answer is status 400 with the message of the
  rejection branch and both tables are exactly as before, so the stored booking keeps its
  seats and every other field.
\<close>

theorem put_booking_over_capacity_unchanged:
  assumes "findIndex (\<lambda>b. num_eq (b_id b) (string_to_number p)) (bookings s) = Some idx"
    and "get_field u ''seats'' \<noteq> JUndefined"
    and "find (\<lambda>e. num_eq (e_id e) (b_eventId (bookings s ! idx))) (events s) = Some ev"
    and "num_gt (num_add (sum_seats (filter (\<lambda>b. num_eq (b_eventId b) (b_eventId (bookings s ! idx))
                      \<and> \<not> num_eq (b_id b) (string_to_number p)) (bookings s)))
                   (to_number (get_field u ''seats''))) (e_capacity ev)"
  shows "put_booking s p u = ((400, Error ''Not enough seats available for this update''), s)"
  using assms by (simp add: put_booking_def update_seats_def)

theorem put_booking_over_capacity_unchanged_witness:
  "findIndex (\<lambda>b. num_eq (b_id b) (string_to_number ''1'')) (bookings (initial_state ''t'')) = Some 0
   \<and> get_field (JObj [(''seats'', JNum (Fin 1000))]) ''seats'' \<noteq> JUndefined
   \<and> find (\<lambda>e. num_eq (e_id e) (b_eventId (bookings (initial_state ''t'') ! 0)))
        (events (initial_state ''t'')) = Some (hd (events (initial_state ''t'')))
   \<and> num_gt (num_add (sum_seats (filter (\<lambda>b. num_eq (b_eventId b)
                         (b_eventId (bookings (initial_state ''t'') ! 0))
                      \<and> \<not> num_eq (b_id b) (string_to_number ''1'')) (bookings (initial_state ''t''))))
                   (to_number (get_field (JObj [(''seats'', JNum (Fin 1000))]) ''seats'')))
        (e_capacity (hd (events (initial_state ''t''))))
   \<and> put_booking (initial_state ''t'') ''1'' (JObj [(''seats'', JNum (Fin 1000))])
      = ((400, Error ''Not enough seats available for this update''), initial_state ''t'')"
  using put_booking_over_capacity_unchanged[of "''1''" "initial_state ''t''" 0
      "JObj [(''seats'', JNum (Fin 1000))]" "hd (events (initial_state ''t''))"]
  by (simp add: eval_defs number_of_1)

section \<open>Booking creation: the order of the checks\<close>



section \<open>Booking update: the checks on a seats change\<close>



section \<open>Booking update: name, email and phone\<close>

text \<open>
  C5, as the claim states it, fails: the fields \<open>name\<close>, \<open>email\<close> and \<open>phone\<close> are
  assigned after the seats block, and a rejected seats change returns before them. On the
  start-up tables, \<open>PUT /api/bookings/1\<close> with \<open>{seats: 1000, name: "Bob"}\<close> finds the
  booking, carries a name, answers 400 and leaves the stored name "Alice Kumar".
\<close>

theorem put_booking_fields_counterexample:
  "fst (get_booking (initial_state ''t'') ''1'')
     = (200, BookingJson (hd (bookings (initial_state ''t''))))
   \<and> get_field (JObj [(''seats'', JNum (Fin 1000)), (''name'', JStr ''Bob'')]) ''name'' = JStr ''Bob''
   \<and> put_booking (initial_state ''t'') ''1''
        (JObj [(''seats'', JNum (Fin 1000)), (''name'', JStr ''Bob'')])
      = ((400, Error ''Not enough seats available for this update''), initial_state ''t'')
   \<and> map b_name (bookings (snd (put_booking (initial_state ''t'') ''1''
        (JObj [(''seats'', JNum (Fin 1000)), (''name'', JStr ''Bob'')]))))
      = [JStr ''Alice Kumar'']"
  by (simp add: put_booking_def update_seats_def get_booking_def eval_defs number_of_1)

text \<open>
  C5, amended. For a \<open>PUT /api/bookings/:id\<close> that finds the booking at index \<open>idx\<close>:
  whenever the answer is 200, which it is at least when the body carries no \<open>seats\<close>, each
  of \<open>name\<close>, \<open>email\<close>, \<open>phone\<close> of the stored booking is the body's value if the body
  has that member and the previous value otherwise, and the answer carries the stored
  booking; whenever the answer is not 200, nothing is changed.
\<close>

theorem put_booking_fields_when_not_rejected:
  fixes s :: state and p :: string and u :: jsval
  defines "r \<equiv> put_booking s p u"
  assumes found: "findIndex (\<lambda>b. num_eq (b_id b) (string_to_number p)) (bookings s) = Some idx"
  shows
    "(fst (fst r) = 200 \<longrightarrow>
        fst r = (200, BookingJson (bookings (snd r) ! idx))
        \<and> b_name (bookings (snd r) ! idx)
            = (if get_field u ''name'' \<noteq> JUndefined then get_field u ''name''
               else b_name (bookings s ! idx))
        \<and> b_email (bookings (snd r) ! idx)
            = (if get_field u ''email'' \<noteq> JUndefined then get_field u ''email''
               else b_email (bookings s ! idx))
        \<and> b_phone (bookings (snd r) ! idx)
            = (if get_field u ''phone'' \<noteq> JUndefined then get_field u ''phone''
               else b_phone (bookings s ! idx)))
     \<and> (get_field u ''seats'' = JUndefined \<longrightarrow> fst (fst r) = 200)
     \<and> (fst (fst r) \<noteq> 200 \<longrightarrow> snd r = s)"
proof -
  from findIndex_Some[OF found] have lt: "idx < length (bookings s)" by simp
  show ?thesis
    unfolding r_def using found lt
    by (auto simp: put_booking_def update_seats_def Let_def assign_booking_field_def
             split: option.splits if_splits)
qed

theorem put_booking_fields_when_not_rejected_witness:
  "findIndex (\<lambda>b. num_eq (b_id b) (string_to_number ''1'')) (bookings (initial_state ''t'')) = Some 0
   \<and> get_field (JObj [(''name'', JStr ''Bob''), (''phone'', JNull)]) ''seats'' = JUndefined
   \<and> fst (fst (put_booking (initial_state ''t'') ''1''
                  (JObj [(''name'', JStr ''Bob''), (''phone'', JNull)]))) = 200
   \<and> b_name (bookings (snd (put_booking (initial_state ''t'') ''1''
                  (JObj [(''name'', JStr ''Bob''), (''phone'', JNull)]))) ! 0) = JStr ''Bob''
   \<and> b_email (bookings (snd (put_booking (initial_state ''t'') ''1''
                  (JObj [(''name'', JStr ''Bob''), (''phone'', JNull)]))) ! 0)
      = JStr ''alice@example.com''
   \<and> b_phone (bookings (snd (put_booking (initial_state ''t'') ''1''
                  (JObj [(''name'', JStr ''Bob''), (''phone'', JNull)]))) ! 0) = JNull"
proof -
  have found: "findIndex (\<lambda>b. num_eq (b_id b) (string_to_number ''1''))
                 (bookings (initial_state ''t'')) = Some 0"
    by (simp add: eval_defs number_of_1)
  show ?thesis
    using found put_booking_fields_when_not_rejected[OF found,
        where u = "JObj [(''name'', JStr ''Bob''), (''phone'', JNull)]"]
    by (simp add: initial_state_def)
qed

section \<open>Seats that do not coerce to a number\<close>



section \<open>Event update: capacity is not checked against bookings\<close>



section \<open>Deleting an event\<close>

text \<open>
  C6. In any state the server can reach, a \<open>DELETE /event/:id\<close> that finds the event at
  index \<open>i\<close> answers 200 with that event, whose id is the requested one. Afterwards the
  events are the previous ones without the events of that id, of which there was exactly
  one; the bookings are the previous ones without those whose \<open>eventId\<close> is that id, in
  the same order and otherwise untouched, so no remaining booking references the id; and
  \<open>GET /event/:id\<close> for the same id answers 404.
\<close>

theorem delete_event_cascades:
  fixes s :: state and p :: string
  defines "s' \<equiv> snd (delete_event s p)"
  assumes reach: "reachable s"
    and found: "findIndex (\<lambda>e. num_eq (e_id e) (string_to_number p)) (events s) = Some i"
  shows
    "fst (delete_event s p) = (200, EventMessage ''Event cancelled'' (events s ! i))
     \<and> num_eq (e_id (events s ! i)) (string_to_number p)
     \<and> events s' = filter (\<lambda>e. \<not> num_eq (e_id e) (string_to_number p)) (events s)
     \<and> length (events s') + 1 = length (events s)
     \<and> bookings s' = filter (\<lambda>b. \<not> num_eq (b_eventId b) (string_to_number p)) (bookings s)
     \<and> (\<forall>b\<in>set (bookings s'). \<not> num_eq (b_eventId b) (string_to_number p))
     \<and> get_event s' p = ((404, Error ''Event not found''), s')"
proof -
  let ?id = "string_to_number p"
  from findIndex_Some[OF found]
  have lt: "i < length (events s)" and hit: "num_eq (e_id (events s ! i)) ?id" by simp_all
  from num_eq_not_NaN[OF hit] have id: "e_id (events s ! i) = ?id" "?id \<noteq> NaN" by simp_all
  from reachable_ids_ok[OF reach] have dist: "distinct (map e_id (events s))"
    by (simp add: ids_ok_def)
  have evs: "events s' = take i (events s) @ drop (Suc i) (events s)"
    and bks: "bookings s' = filter (\<lambda>b. \<not> num_eq (b_eventId b) ?id) (bookings s)"
    and resp: "fst (delete_event s p) = (200, EventMessage ''Event cancelled'' (events s ! i))"
    using found by (simp_all add: s'_def delete_event_def Let_def)
  have flt: "events s' = filter (\<lambda>e. \<not> num_eq (e_id e) ?id) (events s)"
    using remove_nth_filter[OF dist lt] evs id by (simp add: num_eq_iff)
  have len: "length (events s') + 1 = length (events s)"
    using lt by (simp add: evs)
  have none: "find (\<lambda>e. num_eq (e_id e) ?id) (events s') = None"
    by (simp add: find_None_ball flt)
  have gone: "get_event s' p = ((404, Error ''Event not found''), s')"
    using none by (simp add: get_event_def)
  show ?thesis
    using resp hit flt len bks gone by simp
qed

theorem delete_event_cascades_witness:
  "reachable (initial_state ''t'')
   \<and> findIndex (\<lambda>e. num_eq (e_id e) (string_to_number ''1'')) (events (initial_state ''t'')) = Some 0
   \<and> fst (fst (delete_event (initial_state ''t'') ''1'')) = 200
   \<and> events (snd (delete_event (initial_state ''t'') ''1'')) = []
   \<and> bookings (snd (delete_event (initial_state ''t'') ''1'')) = []
   \<and> fst (get_event (snd (delete_event (initial_state ''t'') ''1'')) ''1'')
      = (404, Error ''Event not found'')"
proof -
  have found: "findIndex (\<lambda>e. num_eq (e_id e) (string_to_number ''1''))
                 (events (initial_state ''t'')) = Some 0"
    by (simp add: eval_defs number_of_1)
  show ?thesis
    using found reachable.start[of "''t''"]
      delete_event_cascades[OF reachable.start[of "''t''"] found]
    by (simp add: eval_defs number_of_1)
qed


section \<open>The capacity bound\<close>




section \<open>Ids\<close>




section \<open>The seats of a stored booking\<close>

text \<open>
  C9, as the claim states it, fails: nothing in the handlers requires seats to be a positive
  integer. On the start-up tables, \<open>POST /api/bookings\<close> with seats \<open>-5\<close> stores \<open>-5\<close>,
  \<open>PUT /api/bookings/1\<close> with seats \<open>0\<close> stores \<open>0\<close>, and \<open>POST /api/bookings\<close> with
  seats "abc" stores NaN.
\<close>

theorem seats_positive_counterexample:
  "map b_seats (bookings (snd (post_booking (initial_state ''t'')
        (JObj [(''eventId'', JNum (Fin 1)), (''name'', JStr ''Bob''),
               (''email'', JStr ''bob@example.com''), (''seats'', JNum (Fin (- 5)))]) ''n'')))
     = [Fin 1, Fin (- 5)]
   \<and> map b_seats (bookings (snd (put_booking (initial_state ''t'') ''1''
        (JObj [(''seats'', JNum (Fin 0))])))) = [Fin 0]
   \<and> map b_seats (bookings (snd (post_booking (initial_state ''t'')
        (JObj [(''eventId'', JNum (Fin 1)), (''name'', JStr ''Bob''),
               (''email'', JStr ''bob@example.com''), (''seats'', JStr ''abc'')]) ''n'')))
     = [Fin 1, NaN]
   \<and> \<not> positive_integer (Fin (- 5)) \<and> \<not> positive_integer (Fin 0) \<and> \<not> positive_integer NaN"
  by (simp add: post_booking_def put_booking_def update_seats_def assign_booking_field_def
      eval_defs number_of_1 number_of_abc positive_integer_def)

text \<open>
  C9, amended. From the start-up tables, after any sequence of requests in which every
  booking creation carries seats that coerce to a positive integer and every booking update
  carries no seats or seats that coerce to a positive integer, every stored booking has
  seats that are a positive integer.
\<close>

theorem seats_positive_when_requests_are:
  "list_all positive_seats rs \<Longrightarrow>
   list_all (\<lambda>b. positive_integer (b_seats b)) (bookings (run (initial_state t0) rs))"
proof -
  assume rs: "list_all positive_seats rs"
  have "list_all (\<lambda>b. positive_integer (b_seats b)) (bookings (initial_state t0))"
    by (simp add: initial_state_def positive_integer_def)
  from positive_seats_run[OF this rs] show ?thesis .
qed

theorem seats_positive_when_requests_are_witness:
  "list_all positive_seats
     [PostBooking (JObj [(''eventId'', JNum (Fin 1)), (''name'', JStr ''Bob''),
                         (''email'', JStr ''bob@example.com''), (''seats'', JNum (Fin 5))]) ''n'',
      PutBooking ''1'' (JObj [(''seats'', JNum (Fin 10))])]
   \<and> map b_seats (bookings (run (initial_state ''t'')
     [PostBooking (JObj [(''eventId'', JNum (Fin 1)), (''name'', JStr ''Bob''),
                         (''email'', JStr ''bob@example.com''), (''seats'', JNum (Fin 5))]) ''n'',
      PutBooking ''1'' (JObj [(''seats'', JNum (Fin 10))])])) = [Fin 10, Fin 5]
   \<and> list_all (\<lambda>b. positive_integer (b_seats b)) (bookings (run (initial_state ''t'')
     [PostBooking (JObj [(''eventId'', JNum (Fin 1)), (''name'', JStr ''Bob''),
                         (''email'', JStr ''bob@example.com''), (''seats'', JNum (Fin 5))]) ''n'',
      PutBooking ''1'' (JObj [(''seats'', JNum (Fin 10))])]))"
proof -
  let ?rs = "[PostBooking (JObj [(''eventId'', JNum (Fin 1)), (''name'', JStr ''Bob''),
                         (''email'', JStr ''bob@example.com''), (''seats'', JNum (Fin 5))]) ''n'',
              PutBooking ''1'' (JObj [(''seats'', JNum (Fin 10))])]"
  have rs: "list_all positive_seats ?rs"
    by (simp add: positive_integer_def)
  have m: "map b_seats (bookings (run (initial_state ''t'') ?rs)) = [Fin 10, Fin 5]"
    by (simp add: post_booking_def put_booking_def update_seats_def assign_booking_field_def
        eval_defs number_of_1)
  from seats_positive_when_requests_are[OF rs, of "''t''"] rs m show ?thesis by simp
qed

end
